theory Spec2Isabelle
  imports Main "HOL-Library.Word"
begin

section \<open>Data model of the sketch\<close>

text \<open>
  The sketch \<^verbatim>\<open>SimonGame_Final_JuneTwentyFive.ino\<close> runs on an 8-bit AVR board:
  \<^verbatim>\<open>byte\<close> is an unsigned 8-bit integer and \<^verbatim>\<open>unsigned long\<close> an unsigned
  32-bit integer; both wrap around.
\<close>

type_synonym byte = "8 word"
type_synonym ulong = "32 word"

datatype GameMode = CLASSIC | SPEED | REVERSE | STEALTH

text \<open>
  The note constants come from \<^verbatim>\<open>pitches.h\<close>; only their names occur in the sketch, so a
  frequency is kept as the name of the constant plus the integer added to it.
\<close>

datatype pitch =
    NOTE_D2 | NOTE_A2 | NOTE_G3 | NOTE_C4 | NOTE_E4 | NOTE_G4 | NOTE_A4
  | NOTE_C5 | NOTE_CS5 | NOTE_D5 | NOTE_DS5 | NOTE_E5 | NOTE_G5

text \<open>
  Everything the sketch sends to a peripheral is appended to a log, in program order:
  \<^verbatim>\<open>digitalWrite(pin, level)\<close>, \<^verbatim>\<open>tone(pin, note + offset)\<close>, \<^verbatim>\<open>noTone(pin)\<close>,
  \<^verbatim>\<open>delay(ms)\<close>, the calls on the display and \<^verbatim>\<open>EEPROM.write(address, value)\<close>.
\<close>

datatype event =
    DigitalWrite nat bool
  | Tone nat pitch int
  | NoTone nat
  | Delay nat
  | LcdClear
  | LcdSetCursor nat nat
  | LcdPrint string
  | LcdPrintNum int
  | EepromWrite nat byte

text \<open>
  The global variables of the sketch, the EEPROM, the millisecond clock read by
  \<^verbatim>\<open>millis()\<close> and the log of emitted events.
\<close>

record game =
  gameSequence :: "byte list"
  Level :: byte
  lives :: byte
  isMuted :: bool
  currentMode :: GameMode
  eeprom :: "nat \<Rightarrow> byte"
  clock :: ulong
  out :: "event list"

text \<open>
  How a call can fail to return a value: the scripted pin readings ran out while the code
  was still polling (\<open>Blocked\<close>), an array was indexed outside its bounds
  (\<open>OutOfBounds\<close>), or the sketch entered its final \<^verbatim>\<open>while (true);\<close> (\<open>Halted\<close>,
  with the state it stopped in).
\<close>

datatype stop = Blocked | OutOfBounds | Halted game

definition ledPins :: "nat list" where
  "ledPins = [4, 5, 6, 7]"

definition buttonPins :: "nat list" where
  "buttonPins = [0, 1, 2, 3]"

definition speaker :: nat where
  "speaker = 10"

definition MAX_GAME_LENGTH :: byte where
  "MAX_GAME_LENGTH = 100"

definition gameTones :: "pitch list" where
  "gameTones = [NOTE_G3, NOTE_C4, NOTE_E4, NOTE_G5]"

definition highScoreAddress :: nat where
  "highScoreAddress = 0"

text \<open>The state at the end of the global initialisers (lines 41 to 49).\<close>

definition initial :: "bool \<Rightarrow> GameMode \<Rightarrow> (nat \<Rightarrow> byte) \<Rightarrow> game" where
  "initial muted mode rom =
     \<lparr>gameSequence = replicate (unat MAX_GAME_LENGTH) 0, Level = 0, lives = 3,
      isMuted = muted, currentMode = mode, eeprom = rom, clock = 0, out = []\<rparr>"

text \<open>An EEPROM that was never written reads \<^verbatim>\<open>0xFF\<close> in every cell.\<close>

definition erased :: "nat \<Rightarrow> byte" where
  "erased a = 255"

section \<open>Peripheral primitives\<close>

definition emit :: "event \<Rightarrow> game \<Rightarrow> game" where
  "emit e g = g\<lparr>out := out g @ [e]\<rparr>"

text \<open>\<^verbatim>\<open>delay(n)\<close> is the only thing that moves the clock; it is logged as well.\<close>

definition delay :: "nat \<Rightarrow> game \<Rightarrow> game" where
  "delay n g = g\<lparr>clock := clock g + of_nat n, out := out g @ [Delay n]\<rparr>"

definition digitalWrite :: "nat \<Rightarrow> bool \<Rightarrow> game \<Rightarrow> game" where
  "digitalWrite pin v g = emit (DigitalWrite pin v) g"

definition tone :: "nat \<Rightarrow> pitch \<Rightarrow> game \<Rightarrow> game" where
  "tone pin f g = emit (Tone pin f 0) g"

definition noTone :: "nat \<Rightarrow> game \<Rightarrow> game" where
  "noTone pin g = emit (NoTone pin) g"

text \<open>Reading a C array: an index outside the array is reported, not hidden.\<close>

definition at :: "'a list \<Rightarrow> int \<Rightarrow> stop + 'a" where
  "at xs i = (if 0 \<le> i \<and> i < int (length xs) then Inr (xs ! nat i) else Inl OutOfBounds)"

text \<open>
  Two states agree on the globals of the sketch and on the EEPROM; the clock and the log
  of emitted events may differ.
\<close>

definition sameGlobals :: "game \<Rightarrow> game \<Rightarrow> bool" where
  "sameGlobals g g' \<longleftrightarrow>
     gameSequence g' = gameSequence g \<and> Level g' = Level g \<and> lives g' = lives g \<and>
     isMuted g' = isMuted g \<and> currentMode g' = currentMode g \<and> eeprom g' = eeprom g"

lemma sameGlobals_refl [simp]: "sameGlobals g g"
  by (simp add: sameGlobals_def)

lemma sameGlobals_trans: "sameGlobals g g1 \<Longrightarrow> sameGlobals g1 g2 \<Longrightarrow> sameGlobals g g2"
  by (simp add: sameGlobals_def)

lemma sameGlobals_emit [simp]: "sameGlobals g (emit e g')  = sameGlobals g g'"
  by (simp add: sameGlobals_def emit_def)

lemma sameGlobals_delay [simp]: "sameGlobals g (delay n g') = sameGlobals g g'"
  by (simp add: sameGlobals_def delay_def)

lemma sameGlobals_emit_l [simp]: "sameGlobals (emit e g) g'  = sameGlobals g g'"
  by (simp add: sameGlobals_def emit_def)

lemma sameGlobals_delay_l [simp]: "sameGlobals (delay n g) g' = sameGlobals g g'"
  by (simp add: sameGlobals_def delay_def)

section \<open>Cue player\<close>

text \<open>The recurring \<^verbatim>\<open>if (!isMuted) ...\<close> guard.\<close>

definition unlessMuted :: "(game \<Rightarrow> game) \<Rightarrow> game \<Rightarrow> game" where
  "unlessMuted f g = (if \<not> isMuted g then f g else g)"

text \<open>\<^verbatim>\<open>if (!isMuted) tone(speaker, gameTones[i])\<close>: the table is read only when unmuted.\<close>

definition toneOf :: "byte \<Rightarrow> game \<Rightarrow> stop + game" where
  "toneOf i g =
     (if \<not> isMuted g then
        (case at gameTones (uint i) of
           Inl e \<Rightarrow> Inl e
         | Inr f \<Rightarrow> Inr (tone speaker f g))
      else Inr g)"

text \<open>\<^verbatim>\<open>lightLedAndPlayTone\<close> (lines 100 to 106).\<close>

definition lightLedAndPlayTone :: "byte \<Rightarrow> game \<Rightarrow> stop + game" where
  "lightLedAndPlayTone i g =
     (case at ledPins (uint i) of
        Inl e \<Rightarrow> Inl e
      | Inr led \<Rightarrow>
          (case toneOf i (digitalWrite led True g) of
             Inl e \<Rightarrow> Inl e
           | Inr g2 \<Rightarrow>
               Inr (unlessMuted (noTone speaker) (digitalWrite led False (delay 300 g2)))))"

text \<open>\<^verbatim>\<open>playToneOnly\<close> (lines 108 to 112).\<close>

definition playToneOnly :: "byte \<Rightarrow> game \<Rightarrow> stop + game" where
  "playToneOnly i g =
     (case toneOf i g of
        Inl e \<Rightarrow> Inl e
      | Inr g1 \<Rightarrow> Inr (unlessMuted (noTone speaker) (delay 300 g1)))"

text \<open>
  One iteration of the loop of \<^verbatim>\<open>playSequence\<close> up to, and without, the pacing delay
  (lines 142 to 153): the cue for the colour \<open>current\<close>.
\<close>

definition playStep :: "byte \<Rightarrow> game \<Rightarrow> stop + game" where
  "playStep current g =
     (if currentMode g = STEALTH then
        (if \<not> isMuted g then
           (case at gameTones (uint current) of
              Inl e \<Rightarrow> Inl e
            | Inr f \<Rightarrow> Inr (noTone speaker (delay 300 (tone speaker f g))))
         else Inr (delay 300 g))
      else lightLedAndPlayTone current g)"

text \<open>
  \<^verbatim>\<open>int speed = max(100, 400 - Level * 10)\<close> (line 138); \<^verbatim>\<open>Level\<close> is promoted to
  \<^verbatim>\<open>int\<close>, and \<open>400 - 255 * 10\<close> still fits 16 bits.
\<close>

definition speed :: "game \<Rightarrow> int" where
  "speed g = max 100 (400 - uint (Level g) * 10)"

lemma playStep_Level: "playStep c g = Inr g' \<Longrightarrow> Level g' = Level g"
  by (auto simp: playStep_def lightLedAndPlayTone_def toneOf_def unlessMuted_def delay_def
      tone_def noTone_def digitalWrite_def emit_def split: if_splits sum.splits)

function playLoop :: "int \<Rightarrow> nat \<Rightarrow> game \<Rightarrow> stop + game" where
  "playLoop sp i g =
     (if i < unat (Level g) then
        (case at (gameSequence g) (int i) of
           Inl e \<Rightarrow> Inl e
         | Inr current \<Rightarrow>
             (case playStep current g of
                Inl e \<Rightarrow> Inl e
              | Inr g1 \<Rightarrow> playLoop sp (i + 1) (delay (nat sp) g1)))
      else Inr g)"
  by pat_completeness auto
termination
  by (relation "measure (\<lambda>(sp, i, g). unat (Level g) - i)")
    (auto simp: delay_def dest: playStep_Level)

declare playLoop.simps [simp del]

definition playSequence :: "game \<Rightarrow> stop + game" where
  "playSequence g = playLoop (speed g) 0 g"

section \<open>High score store\<close>

definition eepromWrite :: "nat \<Rightarrow> byte \<Rightarrow> game \<Rightarrow> game" where
  "eepromWrite a v g = g\<lparr>eeprom := (eeprom g)(a := v), out := out g @ [EepromWrite a v]\<rparr>"

text \<open>\<^verbatim>\<open>updateHighScore\<close> (lines 223 to 230).\<close>

definition updateHighScore :: "byte \<Rightarrow> game \<Rightarrow> game" where
  "updateHighScore score g =
     (let currentHigh = eeprom g highScoreAddress
      in if currentHigh = 255 \<or> score > currentHigh
         then eepromWrite highScoreAddress score g
         else g)"

section \<open>Input reader\<close>

text \<open>
  The buttons are an oracle: \<open>pins\<close> is the script of the answers to the successive
  \<^verbatim>\<open>digitalRead(buttonPins[i])\<close> calls, \<open>True\<close> for \<^verbatim>\<open>LOW\<close> (contact closed; the pins
  are \<^verbatim>\<open>INPUT_PULLUP\<close>). A reader takes the answers it polls from the front of the
  script and returns the rest; when the script ends first, the reader is \<open>Blocked\<close>.
\<close>

text \<open>\<^verbatim>\<open>while (digitalRead(buttonPins[i]) == LOW);\<close>\<close>

fun awaitRelease :: "bool list \<Rightarrow> stop + bool list" where
  "awaitRelease [] = Inl Blocked"
| "awaitRelease (p # ps) = (if p then awaitRelease ps else Inr ps)"

text \<open>
  \<^verbatim>\<open>readButtonsDebounced\<close> (lines 160 to 173), entered with the \<^verbatim>\<open>for\<close> loop at button
  \<open>i\<close>; at \<open>i = 4\<close> the \<^verbatim>\<open>for\<close> loop is over, \<^verbatim>\<open>delay(1)\<close> runs and the
  \<^verbatim>\<open>while (true)\<close> starts the next round at button 0.
\<close>

function debouncedFrom :: "nat \<Rightarrow> game \<Rightarrow> bool list \<Rightarrow> stop + (byte \<times> game \<times> bool list)" where
  "debouncedFrom i g pins =
     (if i < 4 then
        (case pins of
           [] \<Rightarrow> Inl Blocked
         | p # ps \<Rightarrow>
             if p then
               (case ps of
                  [] \<Rightarrow> Inl Blocked
                | q # qs \<Rightarrow>
                    if q then
                      (case awaitRelease qs of
                         Inl e \<Rightarrow> Inl e
                       | Inr rest \<Rightarrow> Inr (of_nat i, delay 20 g, rest))
                    else debouncedFrom (i + 1) (delay 20 g) qs)
             else debouncedFrom (i + 1) g ps)
      else debouncedFrom 0 (delay 1 g) pins)"
  by pat_completeness auto
termination
  by (relation "measures [\<lambda>(i, g, pins). length pins, \<lambda>(i, g, pins). if i < 4 then 0 else 1]")
    auto

declare debouncedFrom.simps [simp del]

definition readButtonsDebounced :: "game \<Rightarrow> bool list \<Rightarrow> stop + (byte \<times> game \<times> bool list)" where
  "readButtonsDebounced g pins = debouncedFrom 0 g pins"

text \<open>
  The \<^verbatim>\<open>for\<close> loop of \<^verbatim>\<open>readButtonsWithCountdown\<close> (lines 190 to 198), entered at
  button \<open>i\<close>: \<open>Some b\<close> when it returns the button \<open>b\<close>, \<open>None\<close> when it runs to its end.
\<close>

function scanButtons :: "nat \<Rightarrow> game \<Rightarrow> bool list \<Rightarrow> stop + (byte option \<times> game \<times> bool list)" where
  "scanButtons i g pins =
     (if i < 4 then
        (case pins of
           [] \<Rightarrow> Inl Blocked
         | p # ps \<Rightarrow>
             if p then
               (case ps of
                  [] \<Rightarrow> Inl Blocked
                | q # qs \<Rightarrow>
                    if q then
                      (case awaitRelease qs of
                         Inl e \<Rightarrow> Inl e
                       | Inr rest \<Rightarrow> Inr (Some (of_nat i), delay 20 g, rest))
                    else scanButtons (i + 1) (delay 20 g) qs)
             else scanButtons (i + 1) g ps)
      else Inr (None, g, pins))"
  by pat_completeness auto
termination
  by (relation "measure (\<lambda>(i, g, pins). 4 - i)") auto

declare scanButtons.simps [simp del]

text \<open>The display update of lines 182 to 187.\<close>

definition showTimeLeft :: "int \<Rightarrow> game \<Rightarrow> game" where
  "showTimeLeft remaining g =
     emit (LcdPrintNum (remaining + 1)) (emit (LcdPrint ''Time left: '') (emit (LcdSetCursor 3 1)
       (emit (LcdPrint ''Your turn!'') (emit (LcdSetCursor 3 0) (emit LcdClear g)))))"

text \<open>
  \<^verbatim>\<open>int remaining = (countdownTime - elapsed) / 1000\<close>: an unsigned 32-bit quotient stored
  in the 16-bit \<^verbatim>\<open>int\<close> of the AVR.
\<close>

definition toInt :: "ulong \<Rightarrow> int" where
  "toInt x = sint (ucast x :: 16 word)"

lemma awaitRelease_length: "awaitRelease pins = Inr rest \<Longrightarrow> length rest < length pins"
  by (induction pins) (auto split: if_splits)


lemma scanButtons_length_le:
  "scanButtons i g pins = Inr (r, g', pins') \<Longrightarrow>
     length pins' \<le> length pins \<and> (i < 4 \<longrightarrow> length pins' < length pins)"
proof (induction i g pins arbitrary: r g' pins' rule: scanButtons.induct)
  case (1 i g pins)
  show ?case
  proof (cases "i < 4")
    case False
    with "1.prems" show ?thesis by (simp add: scanButtons.simps [of i])
  next
    case i: True
    show ?thesis
    proof (cases pins)
      case Nil
      with "1.prems" i show ?thesis by (simp add: scanButtons.simps [of i])
    next
      case (Cons p ps)
      show ?thesis
      proof (cases p)
        case False
        with Cons "1.prems" i have "scanButtons (i + 1) g ps = Inr (r, g', pins')"
          by (simp add: scanButtons.simps [of i])
        from "1.IH"(2) [OF i Cons False this] Cons show ?thesis by simp
      next
        case p: True
        show ?thesis
        proof (cases ps)
          case Nil
          with Cons p "1.prems" i show ?thesis by (simp add: scanButtons.simps [of i])
        next
          case qs: (Cons q qs)
          show ?thesis
          proof (cases q)
            case False
            with Cons qs p "1.prems" i
            have "scanButtons (i + 1) (delay 20 g) qs = Inr (r, g', pins')"
              by (simp add: scanButtons.simps [of i])
            from "1.IH"(1) [OF i Cons p qs False this] Cons qs show ?thesis by simp
          next
            case True
            with Cons qs p "1.prems" i obtain rest where
              "awaitRelease qs = Inr rest" "pins' = rest"
              by (auto simp: scanButtons.simps [of i] split: sum.splits)
            with awaitRelease_length [of qs rest] Cons qs show ?thesis by simp
          qed
        qed
      qed
    qed
  qed
qed

lemma scanButtons_length:
  "scanButtons 0 g pins = Inr (r, g', pins') \<Longrightarrow> length pins' < length pins"
  using scanButtons_length_le [of 0 g pins r g' pins'] by simp


text \<open>
  The \<^verbatim>\<open>while\<close> loop of \<^verbatim>\<open>readButtonsWithCountdown\<close> (lines 178 to 201); \<^verbatim>\<open>millis()\<close>
  reads \<open>clock\<close>, and the subtraction wraps as unsigned 32-bit subtraction does.
\<close>

function countdownLoop ::
  "ulong \<Rightarrow> ulong \<Rightarrow> int \<Rightarrow> game \<Rightarrow> bool list \<Rightarrow> stop + (byte \<times> game \<times> bool list)" where
  "countdownLoop countdownTime start lastSecond g pins =
     (if clock g - start < countdownTime then
        (let elapsed = clock g - start;
             remaining = toInt ((countdownTime - elapsed) div 1000);
             g1 = (if remaining \<noteq> lastSecond then showTimeLeft remaining g else g)
         in case scanButtons 0 g1 pins of
              Inl e \<Rightarrow> Inl e
            | Inr (Some b, g2, pins2) \<Rightarrow> Inr (b, g2, pins2)
            | Inr (None, g2, pins2) \<Rightarrow>
                countdownLoop countdownTime start remaining (delay 10 g2) pins2)
      else Inr (255, g, pins))"
  by pat_completeness auto
termination
  by (relation "measure (\<lambda>(countdownTime, start, lastSecond, g, pins). length pins)")
    (auto dest: scanButtons_length)

declare countdownLoop.simps [simp del]

definition readButtonsWithCountdown ::
  "ulong \<Rightarrow> game \<Rightarrow> bool list \<Rightarrow> stop + (byte \<times> game \<times> bool list)" where
  "readButtonsWithCountdown countdownTime g pins = countdownLoop countdownTime (clock g) (- 1) g pins"

subsection \<open>What the readers return\<close>

lemma pins_cases:
  obtains (Empty) "pins = []" | (Open) ps where "pins = False # ps" | (Closed1) "pins = [True]"
  | (Bounce) qs where "pins = True # False # qs" | (Press) qs where "pins = True # True # qs"
proof (cases pins)
  case Nil
  then show ?thesis using that by simp
next
  case (Cons p ps)
  then show ?thesis using that by (cases p; cases ps) auto
qed

lemma scanButtons_Nil: "scanButtons i g [] = (if i < 4 then Inl Blocked else Inr (None, g, []))"
  by (simp add: scanButtons.simps [of i])

lemma scanButtons_end: "\<not> i < 4 \<Longrightarrow> scanButtons i g pins = Inr (None, g, pins)"
  by (simp add: scanButtons.simps [of i])

lemma scanButtons_open: "i < 4 \<Longrightarrow> scanButtons i g (False # ps) = scanButtons (i + 1) g ps"
  by (simp add: scanButtons.simps [of i])

lemma scanButtons_closed1: "i < 4 \<Longrightarrow> scanButtons i g [True] = Inl Blocked"
  by (simp add: scanButtons.simps [of i])

lemma scanButtons_bounce:
  "i < 4 \<Longrightarrow> scanButtons i g (True # False # qs) = scanButtons (i + 1) (delay 20 g) qs"
  by (simp add: scanButtons.simps [of i])

lemma scanButtons_press:
  "i < 4 \<Longrightarrow> scanButtons i g (True # True # qs) =
     (case awaitRelease qs of Inl e \<Rightarrow> Inl e | Inr rest \<Rightarrow> Inr (Some (of_nat i), delay 20 g, rest))"
  by (simp add: scanButtons.simps [of i])

lemmas scanButtons_unfold =
  scanButtons_Nil scanButtons_end scanButtons_open scanButtons_closed1 scanButtons_bounce
  scanButtons_press

lemma scanButtons_result:
  "scanButtons i g pins = Inr (r, g', pins') \<Longrightarrow>
     sameGlobals g g' \<and> (\<forall>b. r = Some b \<longrightarrow> b < 4)"
proof (induction i g pins arbitrary: r g' pins' rule: scanButtons.induct)
  case (1 i g pins)
  show ?case
  proof (cases "i < 4")
    case False
    with "1.prems" show ?thesis by (auto simp: scanButtons_end)
  next
    case i: True
    then have i4: "(of_nat i :: byte) < 4"
      by (simp add: word_less_nat_alt unat_of_nat)
    show ?thesis
    proof (cases pins rule: pins_cases)
      case Empty
      with "1.prems" i show ?thesis by (simp add: scanButtons_unfold)
    next
      case (Open ps)
      with "1.prems" i have rec: "scanButtons (i + 1) g ps = Inr (r, g', pins')"
        by (simp add: scanButtons_unfold)
      from "1.IH"(2) [OF i Open _ rec] show ?thesis by simp
    next
      case Closed1
      with "1.prems" i show ?thesis by (simp add: scanButtons_unfold)
    next
      case (Bounce qs)
      with "1.prems" i have rec: "scanButtons (i + 1) (delay 20 g) qs = Inr (r, g', pins')"
        by (simp add: scanButtons_unfold)
      from "1.IH"(1) [OF i Bounce _ refl _ rec] show ?thesis by simp
    next
      case (Press qs)
      with "1.prems" i i4 show ?thesis
        by (auto simp: scanButtons_unfold split: sum.splits)
    qed
  qed
qed


lemma debouncedFrom_wrap: "\<not> i < 4 \<Longrightarrow> debouncedFrom i g pins = debouncedFrom 0 (delay 1 g) pins"
  by (simp add: debouncedFrom.simps [of i])

lemma debouncedFrom_Nil: "i < 4 \<Longrightarrow> debouncedFrom i g [] = Inl Blocked"
  by (simp add: debouncedFrom.simps [of i])

lemma debouncedFrom_open: "i < 4 \<Longrightarrow> debouncedFrom i g (False # ps) = debouncedFrom (i + 1) g ps"
  by (simp add: debouncedFrom.simps [of i])

lemma debouncedFrom_closed1: "i < 4 \<Longrightarrow> debouncedFrom i g [True] = Inl Blocked"
  by (simp add: debouncedFrom.simps [of i])

lemma debouncedFrom_bounce:
  "i < 4 \<Longrightarrow> debouncedFrom i g (True # False # qs) = debouncedFrom (i + 1) (delay 20 g) qs"
  by (simp add: debouncedFrom.simps [of i])

lemma debouncedFrom_press:
  "i < 4 \<Longrightarrow> debouncedFrom i g (True # True # qs) =
     (case awaitRelease qs of Inl e \<Rightarrow> Inl e | Inr rest \<Rightarrow> Inr (of_nat i, delay 20 g, rest))"
  by (simp add: debouncedFrom.simps [of i])

lemmas debouncedFrom_unfold =
  debouncedFrom_Nil debouncedFrom_open debouncedFrom_closed1 debouncedFrom_bounce
  debouncedFrom_press

lemma debouncedFrom_result:
  "debouncedFrom i g pins = Inr (b, g', pins') \<Longrightarrow> sameGlobals g g' \<and> b < 4"
proof (induction i g pins arbitrary: b g' pins' rule: debouncedFrom.induct)
  case (1 i g pins)
  show ?case
  proof (cases "i < 4")
    case False
    with "1.prems" have rec: "debouncedFrom 0 (delay 1 g) pins = Inr (b, g', pins')"
      by (simp add: debouncedFrom_wrap)
    from "1.IH"(3) [OF False rec] show ?thesis by simp
  next
    case i: True
    then have i4: "(of_nat i :: byte) < 4"
      by (simp add: word_less_nat_alt unat_of_nat)
    show ?thesis
    proof (cases pins rule: pins_cases)
      case Empty
      with "1.prems" i show ?thesis by (simp add: debouncedFrom_unfold)
    next
      case (Open ps)
      with "1.prems" i have rec: "debouncedFrom (i + 1) g ps = Inr (b, g', pins')"
        by (simp add: debouncedFrom_unfold)
      from "1.IH"(2) [OF i Open _ rec] show ?thesis by simp
    next
      case Closed1
      with "1.prems" i show ?thesis by (simp add: debouncedFrom_unfold)
    next
      case (Bounce qs)
      with "1.prems" i have rec: "debouncedFrom (i + 1) (delay 20 g) qs = Inr (b, g', pins')"
        by (simp add: debouncedFrom_unfold)
      from "1.IH"(1) [OF i Bounce _ refl _ rec] show ?thesis by simp
    next
      case (Press qs)
      with "1.prems" i i4 show ?thesis
        by (auto simp: debouncedFrom_unfold split: sum.splits)
    qed
  qed
qed

lemma sameGlobals_showTimeLeft [simp]: "sameGlobals g (showTimeLeft r g') = sameGlobals g g'"
  by (simp add: showTimeLeft_def)

lemma sameGlobals_showTimeLeft_l [simp]: "sameGlobals (showTimeLeft r g) g' = sameGlobals g g'"
  by (simp add: showTimeLeft_def)

lemma countdownLoop_result:
  "countdownLoop T start ls g pins = Inr (b, g', pins') \<Longrightarrow>
     sameGlobals g g' \<and> (b < 4 \<or> b = 255 \<and> \<not> clock g' - start < T)"
proof (induction T start ls g pins arbitrary: b g' pins' rule: countdownLoop.induct)
  case (1 T start ls g pins)
  show ?case
  proof (cases "clock g - start < T")
    case False
    with "1.prems" show ?thesis by (auto simp: countdownLoop.simps [of T start ls g])
  next
    case True
    define g1 where
      "g1 = (if toInt ((T - (clock g - start)) div 1000) \<noteq> ls
             then showTimeLeft (toInt ((T - (clock g - start)) div 1000)) g else g)"
    have g1: "sameGlobals g g1" by (simp add: g1_def)
    from "1.prems" True obtain r g2 pins2 where
      scan: "scanButtons 0 g1 pins = Inr (r, g2, pins2)"
      by (auto simp: countdownLoop.simps [of T start ls g] Let_def g1_def
          split: sum.splits)
    from scanButtons_result [OF scan] have g2: "sameGlobals g1 g2" and r: "\<forall>b. r = Some b \<longrightarrow> b < 4"
      by simp_all
    show ?thesis
    proof (cases r)
      case (Some c)
      with "1.prems" True scan have "b = c" "g' = g2"
        by (auto simp: countdownLoop.simps [of T start ls g] Let_def g1_def)
      with Some r g1 g2 show ?thesis by (auto intro: sameGlobals_trans)
    next
      case None
      with "1.prems" True scan
      have rec: "countdownLoop T start (toInt ((T - (clock g - start)) div 1000)) (delay 10 g2) pins2
                   = Inr (b, g', pins')"
        by (auto simp: countdownLoop.simps [of T start ls g] Let_def g1_def)
      from "1.IH" [OF True refl refl g1_def scan refl None refl rec]
      have "sameGlobals g2 g'" and "b < 4 \<or> b = 255 \<and> \<not> clock g' - start < T" by simp_all
      with g1 g2 show ?thesis by (auto intro: sameGlobals_trans)
    qed
  qed
qed

section \<open>Round controller\<close>

text \<open>The expected colour of step \<open>i\<close> (line 207); the index is computed in \<^verbatim>\<open>int\<close>.\<close>

definition expected :: "game \<Rightarrow> nat \<Rightarrow> stop + byte" where
  "expected g i =
     (if currentMode g = REVERSE then at (gameSequence g) (uint (Level g) - 1 - int i)
      else at (gameSequence g) (int i))"

text \<open>The reader chosen for a step (line 209).\<close>

definition readStep :: "game \<Rightarrow> bool list \<Rightarrow> stop + (byte \<times> game \<times> bool list)" where
  "readStep g pins =
     (if currentMode g = SPEED then readButtonsWithCountdown 3000 g pins
      else readButtonsDebounced g pins)"

text \<open>The echo of an accepted press (lines 214 to 218).\<close>

definition echo :: "byte \<Rightarrow> game \<Rightarrow> stop + game" where
  "echo actual g =
     (if currentMode g = STEALTH then playToneOnly actual g else lightLedAndPlayTone actual g)"

lemma readStep_result:
  "readStep g pins = Inr (a, g', pins') \<Longrightarrow> sameGlobals g g' \<and> (a < 4 \<or> a = 255)"
  using countdownLoop_result [of 3000 "clock g" "- 1" g pins a g' pins']
    debouncedFrom_result [of 0 g pins a g' pins']
  by (auto simp: readStep_def readButtonsWithCountdown_def readButtonsDebounced_def
      split: if_splits)

lemma toneOf_sameGlobals: "toneOf i g = Inr g' \<Longrightarrow> sameGlobals g g'"
  by (auto simp: toneOf_def tone_def split: if_splits sum.splits)

lemma sameGlobals_unlessMuted_emit [simp]:
  "sameGlobals g (unlessMuted (emit e) g') = sameGlobals g g'"
  by (simp add: unlessMuted_def)

lemma playToneOnly_sameGlobals: "playToneOnly i g = Inr g' \<Longrightarrow> sameGlobals g g'"
  by (auto simp: playToneOnly_def noTone_def [abs_def] split: sum.splits
      dest: toneOf_sameGlobals)

lemma lightLedAndPlayTone_sameGlobals: "lightLedAndPlayTone i g = Inr g' \<Longrightarrow> sameGlobals g g'"
  by (auto simp: lightLedAndPlayTone_def noTone_def [abs_def] digitalWrite_def
      split: sum.splits dest!: toneOf_sameGlobals)

lemma echo_sameGlobals: "echo a g = Inr g' \<Longrightarrow> sameGlobals g g'"
  by (auto simp: echo_def split: if_splits
      dest: playToneOnly_sameGlobals lightLedAndPlayTone_sameGlobals)

text \<open>
  \<^verbatim>\<open>checkUserSequence\<close> (lines 205 to 221), entered with the loop at step \<open>i\<close>. The
  result is the returned flag, the state and the unread rest of the script.
\<close>

function checkLoop :: "nat \<Rightarrow> game \<Rightarrow> bool list \<Rightarrow> stop + (bool \<times> game \<times> bool list)" where
  "checkLoop i g pins =
     (if i < unat (Level g) then
        (case expected g i of
           Inl e \<Rightarrow> Inl e
         | Inr ex \<Rightarrow>
             (case readStep g pins of
                Inl e \<Rightarrow> Inl e
              | Inr (actual, g1, pins1) \<Rightarrow>
                  if actual = 255 \<or> ex \<noteq> actual then Inr (False, g1\<lparr>lives := lives g1 - 1\<rparr>, pins1)
                  else
                    (case echo actual g1 of
                       Inl e \<Rightarrow> Inl e
                     | Inr g2 \<Rightarrow> checkLoop (i + 1) g2 pins1)))
      else Inr (True, g, pins))"
  by pat_completeness auto
termination
proof (relation "measure (\<lambda>(i, g, pins). unat (Level g) - i)")
  show "wf (measure (\<lambda>(i, g, pins). unat (Level g) - i))" by simp
next
  fix i g pins ex r actual rest g1 pins1 g2
  assume i: "i < unat (Level g)" and r: "readStep g pins = Inr r"
    and "(actual, rest) = r" and "(g1, pins1) = rest" and e: "echo actual g1 = Inr g2"
  then have "readStep g pins = Inr (actual, g1, pins1)" by auto
  from readStep_result [OF this] echo_sameGlobals [OF e] have "Level g2 = Level g"
    by (simp add: sameGlobals_def)
  with i show "((i + 1, g2, pins1), (i, g, pins)) \<in> measure (\<lambda>(i, g, pins). unat (Level g) - i)"
    by simp
qed

declare checkLoop.simps [simp del]

definition checkUserSequence :: "game \<Rightarrow> bool list \<Rightarrow> stop + (bool \<times> game \<times> bool list)" where
  "checkUserSequence g pins = checkLoop 0 g pins"

section \<open>Display and jingles\<close>

definition lcdClear :: "game \<Rightarrow> game" where
  "lcdClear g = emit LcdClear g"

definition lcdSetCursor :: "nat \<Rightarrow> nat \<Rightarrow> game \<Rightarrow> game" where
  "lcdSetCursor col row g = emit (LcdSetCursor col row) g"

definition lcdPrint :: "string \<Rightarrow> game \<Rightarrow> game" where
  "lcdPrint s g = emit (LcdPrint s) g"

definition lcdPrintNum :: "int \<Rightarrow> game \<Rightarrow> game" where
  "lcdPrintNum n g = emit (LcdPrintNum n) g"

text \<open>\<^verbatim>\<open>for (j = 0; j < 4; j++) digitalWrite(ledPins[j], v)\<close>\<close>

definition allLeds :: "bool \<Rightarrow> game \<Rightarrow> game" where
  "allLeds v g = fold (\<lambda>j. digitalWrite (ledPins ! j) v) [0..<4] g"

text \<open>\<^verbatim>\<open>flashAllLEDsSync\<close> (lines 51 to 58).\<close>

fun flashAllLEDsSync :: "nat \<Rightarrow> nat \<Rightarrow> game \<Rightarrow> game" where
  "flashAllLEDsSync 0 delayTime g = g"
| "flashAllLEDsSync (Suc t) delayTime g =
     flashAllLEDsSync t delayTime
       (delay delayTime (allLeds False (delay delayTime (allLeds True g))))"

text \<open>\<^verbatim>\<open>celebrateCorrectSequence\<close> (lines 60 to 69).\<close>

definition celebrateCorrectSequence :: "game \<Rightarrow> game" where
  "celebrateCorrectSequence g =
     fold (\<lambda>i g.
       let g = digitalWrite (ledPins ! (i mod 4)) True g;
           g = unlessMuted
                 (tone speaker ([NOTE_E4, NOTE_G4, NOTE_E5, NOTE_C5, NOTE_D5, NOTE_G5] ! i)) g;
           g = delay 150 g;
           g = digitalWrite (ledPins ! (i mod 4)) False g
       in unlessMuted (noTone speaker) g) [0..<6] g"

text \<open>\<^verbatim>\<open>playMistakeSound\<close> (lines 82 to 86): the delays are outside the guards.\<close>

definition playMistakeSound :: "game \<Rightarrow> game" where
  "playMistakeSound g =
     (let g = unlessMuted (tone speaker NOTE_A2) g;
          g = delay 150 g;
          g = unlessMuted (tone speaker NOTE_D2) g;
          g = delay 150 g
      in unlessMuted (noTone speaker) g)"

section \<open>Game over\<close>

text \<open>The score screen (lines 235 to 241); \<^verbatim>\<open>lcd.print(Level - 1)\<close> prints an \<^verbatim>\<open>int\<close>.\<close>

definition scoreScreen :: "game \<Rightarrow> game" where
  "scoreScreen g =
     (let g = lcdClear g;
          g = lcdSetCursor 3 0 g;
          g = lcdPrint ''Game Over!'' g;
          g = lcdSetCursor 2 1 g;
          g = lcdPrint ''Score: '' g;
          g = lcdPrintNum (uint (Level g) - 1) g
      in delay 2000 g)"

text \<open>The failure jingle and the pitch sweep (lines 243 to 261).\<close>

definition gameOverJingle :: "game \<Rightarrow> game" where
  "gameOverJingle g =
     (let g = fold (\<lambda>i g.
                let g = allLeds True g;
                    g = unlessMuted (tone speaker NOTE_DS5) g;
                    g = delay 150 g;
                    g = unlessMuted (tone speaker NOTE_D5) g;
                    g = delay 150 g;
                    g = unlessMuted (tone speaker NOTE_CS5) g;
                    g = delay 150 g;
                    g = allLeds False g;
                    g = unlessMuted (noTone speaker) g
                in delay 100 g) [0..<3] g
      in if \<not> isMuted g then
           noTone speaker
             (fold (\<lambda>i. fold (\<lambda>p g. delay 5 (emit (Tone speaker NOTE_C5 p) g)) [- 10..10])
                [0..<10] g)
         else g)"

text \<open>The high score screen (lines 265 to 272).\<close>

definition highScoreScreen :: "game \<Rightarrow> game" where
  "highScoreScreen g =
     (let high = eeprom g highScoreAddress;
          g = lcdClear g;
          g = lcdSetCursor 1 0 g;
          g = lcdPrint ''High Score: '' g;
          g = lcdPrintNum (uint high) g;
          g = delay 4000 g
      in lcdClear g)"

text \<open>
  \<^verbatim>\<open>showGameOver\<close> (lines 234 to 275) up to its final \<^verbatim>\<open>while (true);\<close>: the state in
  which the sketch stops. \<^verbatim>\<open>updateHighScore(Level - 1)\<close> converts the \<^verbatim>\<open>int\<close>
  \<^verbatim>\<open>Level - 1\<close> to a \<^verbatim>\<open>byte\<close>.
\<close>

definition showGameOver :: "game \<Rightarrow> game" where
  "showGameOver g =
     (let g = scoreScreen g;
          g = gameOverJingle g;
          g = updateHighScore (word_of_int (uint (Level g) - 1)) g
      in highScoreScreen g)"

section \<open>The main loop\<close>

text \<open>
  \<^verbatim>\<open>random(howsmall, howbig)\<close> of the Arduino core reduces the next output \<open>raw\<close> of the
  generator into the range; \<open>raw\<close> is the oracle here.
\<close>

definition randomIn :: "nat \<Rightarrow> int \<Rightarrow> int \<Rightarrow> int" where
  "randomIn raw howsmall howbig =
     (if howsmall \<ge> howbig then howsmall else int raw mod (howbig - howsmall) + howsmall)"

text \<open>
  Growing the sequence (lines 378 to 380): the write \<^verbatim>\<open>gameSequence[Level] = random(0, 4)\<close>,
  \<^verbatim>\<open>Level++\<close>, and the clamp.
\<close>

definition extend :: "nat \<Rightarrow> game \<Rightarrow> stop + game" where
  "extend raw g =
     (if unat (Level g) < length (gameSequence g) then
        (let g = g\<lparr>gameSequence := (gameSequence g)[unat (Level g) := word_of_int (randomIn raw 0 4)]\<rparr>;
             g = g\<lparr>Level := Level g + 1\<rparr>
         in Inr (if Level g \<ge> MAX_GAME_LENGTH then g\<lparr>Level := MAX_GAME_LENGTH - 1\<rparr> else g))
      else Inl OutOfBounds)"

text \<open>What \<^verbatim>\<open>loop\<close> shows after the verification (lines 385 to 412).\<close>

definition afterRound :: "bool \<Rightarrow> game \<Rightarrow> game" where
  "afterRound ok g =
     (let g = (if \<not> ok then
                 (let g = lcdClear g;
                      g = lcdSetCursor 3 0 g;
                      g = lcdPrint ''Wrong!'' g;
                      g = (if lives g > 0 then flashAllLEDsSync 1 200 (playMistakeSound g) else g);
                      g = lcdSetCursor 1 1 g;
                      g = lcdPrint ''Lives left: '' g;
                      g = lcdPrintNum (uint (lives g)) g
                  in delay 2000 g)
               else
                 (let g = lcdClear g;
                      g = lcdSetCursor 4 0 g;
                      g = lcdPrint ''Correct!'' g;
                      g = celebrateCorrectSequence g
                  in delay 1000 g));
          g = lcdClear g;
          g = lcdSetCursor 0 0 g;
          g = lcdPrint ''Sequence '' g;
          g = lcdPrintNum (uint (Level g)) g;
          g = lcdSetCursor 0 1 g;
          g = lcdPrint ''Lives: '' g;
          g = lcdPrintNum (uint (lives g)) g
      in delay 1000 g)"

text \<open>
  One call of \<^verbatim>\<open>loop\<close> (lines 375 to 413). \<^verbatim>\<open>showGameOver\<close> does not return, so with no
  lives left the call ends in \<open>Halted\<close>.
\<close>

definition loop :: "nat \<Rightarrow> game \<Rightarrow> bool list \<Rightarrow> stop + (game \<times> bool list)" where
  "loop raw g pins =
     (if lives g = 0 then Inl (Halted (showGameOver g))
      else
        (case extend raw g of
           Inl e \<Rightarrow> Inl e
         | Inr g1 \<Rightarrow>
             (case playSequence g1 of
                Inl e \<Rightarrow> Inl e
              | Inr g2 \<Rightarrow>
                  (case checkUserSequence g2 pins of
                     Inl e \<Rightarrow> Inl e
                   | Inr (ok, g3, pins') \<Rightarrow> Inr (afterRound ok g3, pins')))))"

text \<open>
  The Arduino core calls \<^verbatim>\<open>loop\<close> again and again; one call for each element of
  \<open>raws\<close>, the successive outputs of the random generator.
\<close>

fun mainLoop :: "nat list \<Rightarrow> game \<Rightarrow> bool list \<Rightarrow> stop + (game \<times> bool list)" where
  "mainLoop [] g pins = Inr (g, pins)"
| "mainLoop (raw # raws) g pins =
     (case loop raw g pins of
        Inl e \<Rightarrow> Inl e
      | Inr (g', pins') \<Rightarrow> mainLoop raws g' pins')"

text \<open>Successive calls of the sequence store alone.\<close>

fun extends :: "nat list \<Rightarrow> game \<Rightarrow> stop + game" where
  "extends [] g = Inr g"
| "extends (raw # raws) g =
     (case extend raw g of
        Inl e \<Rightarrow> Inl e
      | Inr g' \<Rightarrow> extends raws g')"

text \<open>
  The states the sketch can be in between two calls of \<^verbatim>\<open>loop\<close>: the array has its 100
  slots, \<^verbatim>\<open>Level\<close> is below 100 and every slot holds a colour index.
\<close>

definition wellFormed :: "game \<Rightarrow> bool" where
  "wellFormed g \<longleftrightarrow>
     length (gameSequence g) = unat MAX_GAME_LENGTH \<and> Level g < MAX_GAME_LENGTH \<and>
     (\<forall>c \<in> set (gameSequence g). c < 4)"

section \<open>Notions used to state the properties\<close>

text \<open>The persisted high score, and a series of \<^verbatim>\<open>updateHighScore\<close> calls.\<close>

definition stored :: "game \<Rightarrow> byte" where
  "stored g = eeprom g highScoreAddress"

fun updates :: "byte list \<Rightarrow> game \<Rightarrow> game" where
  "updates [] g = g"
| "updates (s # ss) g = updates ss (updateHighScore s g)"

text \<open>An EEPROM whose cells all hold 10.\<close>

definition scoreTen :: "nat \<Rightarrow> byte" where
  "scoreTen a = 10"

text \<open>The events of sound, light and waiting, as opposed to display and EEPROM events.\<close>

fun cueEvent :: "event \<Rightarrow> bool" where
  "cueEvent (DigitalWrite pin v) = True"
| "cueEvent (Tone pin f d) = True"
| "cueEvent (NoTone pin) = True"
| "cueEvent (Delay n) = True"
| "cueEvent e = False"

text \<open>From \<open>g\<close> to \<open>g'\<close> only sound, light and waiting happened.\<close>

definition soundAndLight :: "game \<Rightarrow> game \<Rightarrow> bool" where
  "soundAndLight g g' \<longleftrightarrow>
     sameGlobals g g' \<and> (\<exists>es. out g' = out g @ es \<and> (\<forall>e \<in> set es. cueEvent e))"

text \<open>A game with no lives left at level \<open>l\<close>.\<close>

definition lost :: "byte \<Rightarrow> (nat \<Rightarrow> byte) \<Rightarrow> game" where
  "lost l rom = (initial False CLASSIC rom)\<lparr>Level := l, lives := 0\<rparr>"

text \<open>The state after 100 rounds of growing the sequence that all drew colour 0.\<close>

definition capped :: game where
  "capped = (initial False CLASSIC erased)\<lparr>Level := 99\<rparr>"

text \<open>What lines 379 and 380 do to a level below 100.\<close>

definition nextLevel :: "byte \<Rightarrow> byte" where
  "nextLevel l = (if l = 99 then 99 else l + 1)"

text \<open>A game in its second round, with the sequence 3, 1.\<close>

definition twoSteps :: "GameMode \<Rightarrow> game" where
  "twoSteps mode =
     (initial False mode erased)\<lparr>gameSequence := 3 # 1 # replicate 98 0, Level := 2\<rparr>"

text \<open>The events a cue for colour \<open>c\<close> emits in the mode and mute setting of \<open>g\<close>.\<close>

definition cueEvents :: "game \<Rightarrow> byte \<Rightarrow> event list" where
  "cueEvents g c = (case playStep c (g\<lparr>out := []\<rparr>) of Inl e \<Rightarrow> [] | Inr g' \<Rightarrow> out g')"

text \<open>The script holds two closed readings in a row somewhere.\<close>

fun confirmable :: "bool list \<Rightarrow> bool" where
  "confirmable (True # True # ps) = True"
| "confirmable (p # ps) = confirmable ps"
| "confirmable [] = False"






section \<open>Auxiliary facts\<close>

lemma updateHighScore_cases:
  "updateHighScore s g =
     (if stored g = 255 \<or> s > stored g then eepromWrite highScoreAddress s g else g)"
  by (simp add: updateHighScore_def stored_def Let_def)

lemma stored_update:
  "stored (updateHighScore s g) = (if stored g = 255 \<or> s > stored g then s else stored g)"
  by (simp add: updateHighScore_cases) (simp add: stored_def eepromWrite_def)

lemma updates_monotone:
  "stored g \<noteq> 255 \<Longrightarrow> \<forall>s \<in> set ss. s \<noteq> 255 \<Longrightarrow>
     stored g \<le> stored (updates ss g) \<and> stored (updates ss g) \<noteq> 255"
proof (induction ss arbitrary: g)
  case Nil
  then show ?case by simp
next
  case (Cons s ss)
  have 1: "stored (updateHighScore s g) \<noteq> 255" and 2: "stored g \<le> stored (updateHighScore s g)"
    using Cons.prems by (auto simp: stored_update)
  from Cons.IH [OF 1] Cons.prems 2 show ?case by auto
qed

lemma at_byte: "at xs (uint c) = (if unat c < length xs then Inr (xs ! unat c) else Inl OutOfBounds)"
  for c :: byte
  using nat_less_iff [of "uint c" "length xs"] by (simp add: at_def)

lemma at_nat: "at xs (int i) = (if i < length xs then Inr (xs ! i) else Inl OutOfBounds)"
  by (simp add: at_def)

lemma byte_less4: "c < 4 \<longleftrightarrow> unat c < 4" for c :: byte
  by (simp add: word_less_nat_alt)

lemma playStep_stealth_unmuted:
  "currentMode g = STEALTH \<Longrightarrow> \<not> isMuted g \<Longrightarrow> c < 4 \<Longrightarrow>
     playStep c g = Inr (g\<lparr>clock := clock g + 300,
       out := out g @ [Tone speaker (gameTones ! unat c) 0, Delay 300, NoTone speaker]\<rparr>)"
  by (simp add: playStep_def at_byte byte_less4 gameTones_def tone_def noTone_def delay_def emit_def)

lemma playStep_stealth_muted:
  "currentMode g = STEALTH \<Longrightarrow> isMuted g \<Longrightarrow>
     playStep c g = Inr (g\<lparr>clock := clock g + 300, out := out g @ [Delay 300]\<rparr>)"
  by (simp add: playStep_def delay_def)

lemma lightLedAndPlayTone_unmuted:
  "\<not> isMuted g \<Longrightarrow> c < 4 \<Longrightarrow>
     lightLedAndPlayTone c g = Inr (g\<lparr>clock := clock g + 300,
       out := out g @ [DigitalWrite (ledPins ! unat c) True, Tone speaker (gameTones ! unat c) 0,
                       Delay 300, DigitalWrite (ledPins ! unat c) False, NoTone speaker]\<rparr>)"
  by (simp add: lightLedAndPlayTone_def toneOf_def unlessMuted_def at_byte byte_less4
      gameTones_def ledPins_def tone_def noTone_def digitalWrite_def delay_def emit_def)

lemma lightLedAndPlayTone_muted:
  "isMuted g \<Longrightarrow> c < 4 \<Longrightarrow>
     lightLedAndPlayTone c g = Inr (g\<lparr>clock := clock g + 300,
       out := out g @ [DigitalWrite (ledPins ! unat c) True, Delay 300,
                       DigitalWrite (ledPins ! unat c) False]\<rparr>)"
  by (simp add: lightLedAndPlayTone_def toneOf_def unlessMuted_def at_byte byte_less4
      gameTones_def ledPins_def tone_def noTone_def digitalWrite_def delay_def emit_def)

lemma playToneOnly_unmuted:
  "\<not> isMuted g \<Longrightarrow> c < 4 \<Longrightarrow>
     playToneOnly c g = Inr (g\<lparr>clock := clock g + 300,
       out := out g @ [Tone speaker (gameTones ! unat c) 0, Delay 300, NoTone speaker]\<rparr>)"
  by (simp add: playToneOnly_def toneOf_def unlessMuted_def at_byte byte_less4
      gameTones_def tone_def noTone_def delay_def emit_def)

lemma playToneOnly_muted:
  "isMuted g \<Longrightarrow> playToneOnly c g = Inr (g\<lparr>clock := clock g + 300, out := out g @ [Delay 300]\<rparr>)"
  by (simp add: playToneOnly_def toneOf_def unlessMuted_def delay_def)

lemma expected_in_range:
  assumes "unat (Level g) \<le> length (gameSequence g)" and "i < unat (Level g)"
  shows "expected g i = Inr (if currentMode g = REVERSE
           then gameSequence g ! (unat (Level g) - 1 - i) else gameSequence g ! i)"
proof -
  define k where "k = unat (Level g) - 1 - i"
  have "int (unat (Level g)) = uint (Level g)" by simp
  with assms have "uint (Level g) - 1 - int i = int k"
    unfolding k_def by linarith
  then have "at (gameSequence g) (uint (Level g) - 1 - int i) = at (gameSequence g) (int k)"
    by (simp only:)
  moreover have "k < length (gameSequence g)"
    unfolding k_def using assms by linarith
  ultimately have "at (gameSequence g) (uint (Level g) - 1 - int i) = Inr (gameSequence g ! k)"
    by (simp add: at_nat)
  then show ?thesis
    using assms by (simp add: expected_def at_nat k_def)
qed

lemma soundAndLight_refl: "soundAndLight g g"
  by (simp add: soundAndLight_def)

lemma soundAndLight_delay: "soundAndLight g h \<Longrightarrow> soundAndLight g (delay n h)"
  by (auto simp: soundAndLight_def delay_def sameGlobals_def)

lemma soundAndLight_emit: "cueEvent e \<Longrightarrow> soundAndLight g h \<Longrightarrow> soundAndLight g (emit e h)"
  by (auto simp: soundAndLight_def emit_def sameGlobals_def)

lemma soundAndLight_tone: "soundAndLight g h \<Longrightarrow> soundAndLight g (tone p f h)"
  by (simp add: tone_def soundAndLight_emit)

lemma soundAndLight_noTone: "soundAndLight g h \<Longrightarrow> soundAndLight g (noTone p h)"
  by (simp add: noTone_def soundAndLight_emit)

lemma soundAndLight_digitalWrite: "soundAndLight g h \<Longrightarrow> soundAndLight g (digitalWrite p v h)"
  by (simp add: digitalWrite_def soundAndLight_emit)

lemma soundAndLight_unlessMuted:
  "(\<And>h. soundAndLight g h \<Longrightarrow> soundAndLight g (f h)) \<Longrightarrow> soundAndLight g h \<Longrightarrow>
     soundAndLight g (unlessMuted f h)"
  by (simp add: unlessMuted_def)

lemma soundAndLight_fold:
  "(\<And>x h. soundAndLight g h \<Longrightarrow> soundAndLight g (f x h)) \<Longrightarrow> soundAndLight g h \<Longrightarrow>
     soundAndLight g (fold f xs h)"
  by (induction xs arbitrary: h) simp_all

lemma soundAndLight_allLeds: "soundAndLight g h \<Longrightarrow> soundAndLight g (allLeds v h)"
  unfolding allLeds_def by (intro soundAndLight_fold soundAndLight_digitalWrite)

lemma soundAndLight_gameOverJingle: "soundAndLight g (gameOverJingle g)"
  unfolding gameOverJingle_def Let_def
  by (intro soundAndLight_fold soundAndLight_delay soundAndLight_unlessMuted
      soundAndLight_noTone soundAndLight_tone soundAndLight_allLeds soundAndLight_emit
      soundAndLight_refl if_split [where P = "soundAndLight g", THEN iffD2] conjI impI)
    simp_all

lemma scoreScreen_eq:
  "scoreScreen g = g\<lparr>clock := clock g + 2000,
     out := out g @ [LcdClear, LcdSetCursor 3 0, LcdPrint ''Game Over!'', LcdSetCursor 2 1,
                     LcdPrint ''Score: '', LcdPrintNum (uint (Level g) - 1), Delay 2000]\<rparr>"
  by (simp add: scoreScreen_def lcdClear_def lcdSetCursor_def lcdPrint_def lcdPrintNum_def
      emit_def delay_def)

lemma highScoreScreen_eq:
  "highScoreScreen g = g\<lparr>clock := clock g + 4000,
     out := out g @ [LcdClear, LcdSetCursor 1 0, LcdPrint ''High Score: '',
                     LcdPrintNum (uint (stored g)), Delay 4000, LcdClear]\<rparr>"
  by (simp add: highScoreScreen_def lcdClear_def lcdSetCursor_def lcdPrint_def lcdPrintNum_def
      emit_def delay_def stored_def)

lemma showGameOver_out:
  "\<exists>jingle. (\<forall>e \<in> set jingle. cueEvent e) \<and>
     out (showGameOver g) =
       out g @ [LcdClear, LcdSetCursor 3 0, LcdPrint ''Game Over!'', LcdSetCursor 2 1,
                LcdPrint ''Score: '', LcdPrintNum (uint (Level g) - 1), Delay 2000]
         @ jingle
         @ (if stored g = 255 \<or> Level g - 1 > stored g
            then [EepromWrite highScoreAddress (Level g - 1)] else [])
         @ [LcdClear, LcdSetCursor 1 0, LcdPrint ''High Score: '',
            LcdPrintNum (uint (stored (showGameOver g))), Delay 4000, LcdClear]"
proof -
  define g1 where "g1 = scoreScreen g"
  define g2 where "g2 = gameOverJingle g1"
  define g3 where "g3 = updateHighScore (Level g - 1) g2"
  from soundAndLight_gameOverJingle [of g1] obtain jingle where
    same: "sameGlobals g1 g2" and j: "out g2 = out g1 @ jingle" "\<forall>e \<in> set jingle. cueEvent e"
    by (auto simp: soundAndLight_def g2_def)
  have l2: "Level g2 = Level g" and s2: "stored g2 = stored g"
    using same by (simp_all add: sameGlobals_def g1_def scoreScreen_eq stored_def)
  have sg: "showGameOver g = highScoreScreen g3"
    by (simp add: showGameOver_def Let_def g1_def g2_def g3_def l2 [unfolded g2_def g1_def])
  have o3: "out g3 = out g2 @ (if stored g = 255 \<or> Level g - 1 > stored g
            then [EepromWrite highScoreAddress (Level g - 1)] else [])"
    by (simp add: g3_def updateHighScore_cases s2 eepromWrite_def)
  have st: "stored (showGameOver g) = stored g3"
    by (simp add: sg highScoreScreen_eq stored_def)
  have "out (showGameOver g) = out g3 @ [LcdClear, LcdSetCursor 1 0, LcdPrint ''High Score: '',
            LcdPrintNum (uint (stored g3)), Delay 4000, LcdClear]"
    by (simp add: sg highScoreScreen_eq)
  then show ?thesis
    unfolding st [symmetric] o3 j(1) using j(2)
    by (intro exI [of _ jingle]) (simp add: g1_def scoreScreen_eq)
qed

lemma showGameOver_stored:
  "eeprom (showGameOver g) = eeprom (updateHighScore (Level g - 1) g)"
proof -
  define g1 where "g1 = scoreScreen g"
  define g2 where "g2 = gameOverJingle g1"
  from soundAndLight_gameOverJingle [of g1] have same: "sameGlobals g1 g2"
    by (auto simp: soundAndLight_def g2_def)
  have l2: "Level g2 = Level g" and s2: "eeprom g2 = eeprom g"
    using same by (simp_all add: sameGlobals_def g1_def scoreScreen_eq)
  have "showGameOver g = highScoreScreen (updateHighScore (Level g - 1) g2)"
    by (simp add: showGameOver_def Let_def g1_def g2_def l2 [unfolded g2_def g1_def])
  then show ?thesis
    by (simp add: highScoreScreen_eq updateHighScore_def Let_def s2 eepromWrite_def)
qed

lemma randomIn_0_4: "(word_of_int (randomIn raw 0 4) :: byte) < 4"
proof -
  have "randomIn raw 0 4 = int (raw mod 4)"
    by (simp add: randomIn_def zmod_int)
  moreover have "(of_nat (raw mod 4) :: byte) < 4"
    by (simp add: word_less_nat_alt unat_of_nat)
  ultimately show ?thesis by simp
qed

lemma byte_succ_less:
  assumes "l < (100 :: byte)"
  shows "100 \<le> l + 1 \<longleftrightarrow> l = 99"
proof -
  have u: "unat l < 100" using assms by (simp add: word_less_nat_alt)
  then have "unat (l + 1) = unat l + 1" by (simp add: unat_word_ariths)
  moreover have "l = 99 \<longleftrightarrow> unat l = 99" by (simp add: word_unat_eq_iff)
  ultimately show ?thesis using u by (simp add: word_le_nat_alt) linarith
qed

lemma extend_wellFormed:
  assumes "wellFormed g"
  shows "extend raw g =
           Inr (g\<lparr>gameSequence := (gameSequence g)[unat (Level g) := word_of_int (randomIn raw 0 4)],
                  Level := (if Level g = 99 then 99 else Level g + 1)\<rparr>)"
proof -
  from assms have len: "length (gameSequence g) = 100" and l: "Level g < 100"
    by (simp_all add: wellFormed_def MAX_GAME_LENGTH_def)
  from l have "unat (Level g) < 100" by (simp add: word_less_nat_alt)
  with len l show ?thesis
    by (simp add: extend_def Let_def MAX_GAME_LENGTH_def byte_succ_less)
qed


lemma extend_keeps_wellFormed:
  assumes "wellFormed g" and "extend raw g = Inr g'"
  shows "wellFormed g'"
proof -
  from assms(1) have l: "Level g < 100" and len: "length (gameSequence g) = 100"
    and cs: "\<forall>c \<in> set (gameSequence g). c < 4"
    by (simp_all add: wellFormed_def MAX_GAME_LENGTH_def)
  have "Level g + 1 < 100" if "Level g \<noteq> 99"
    using byte_succ_less [OF l] that by (simp add: not_le [symmetric])
  moreover have "\<forall>c \<in> set ((gameSequence g)[unat (Level g) := word_of_int (randomIn raw 0 4)]). c < 4"
    using cs randomIn_0_4 [of raw] by (auto dest!: set_update_subset_insert [THEN subsetD])
  ultimately show ?thesis
    using assms(2) len unfolding extend_wellFormed [OF assms(1)]
    by (auto simp: wellFormed_def MAX_GAME_LENGTH_def)
qed

lemma byte_le_succ: "l < (100 :: byte) \<Longrightarrow> l \<le> l + 1"
  by (simp add: word_le_nat_alt word_less_nat_alt unat_word_ariths)

lemma extends_wellFormed:
  "wellFormed g \<Longrightarrow>
     \<exists>g'. extends raws g = Inr g' \<and> wellFormed g' \<and> Level g \<le> Level g' \<and>
       take (unat (Level g)) (gameSequence g') = take (unat (Level g)) (gameSequence g)"
proof (induction raws arbitrary: g)
  case Nil
  then show ?case by simp
next
  case (Cons raw raws)
  define g1 where "g1 = g\<lparr>gameSequence := (gameSequence g)[unat (Level g) := word_of_int (randomIn raw 0 4)],
                  Level := (if Level g = 99 then 99 else Level g + 1)\<rparr>"
  have e: "extend raw g = Inr g1"
    by (simp add: extend_wellFormed [OF Cons.prems] g1_def)
  from extend_keeps_wellFormed [OF Cons.prems e] have w1: "wellFormed g1" .
  from Cons.prems have l: "Level g < 100" by (simp add: wellFormed_def MAX_GAME_LENGTH_def)
  have le: "Level g \<le> Level g1"
    using byte_le_succ [OF l] by (simp add: g1_def)
  from Cons.IH [OF w1] obtain g' where
    g': "extends raws g1 = Inr g'" "wellFormed g'" "Level g1 \<le> Level g'"
      "take (unat (Level g1)) (gameSequence g') = take (unat (Level g1)) (gameSequence g1)"
    by blast
  from le have m: "min (unat (Level g)) (unat (Level g1)) = unat (Level g)"
    by (simp add: word_le_nat_alt)
  from g'(4) have "take (unat (Level g)) (take (unat (Level g1)) (gameSequence g'))
      = take (unat (Level g)) (take (unat (Level g1)) (gameSequence g1))"
    by simp
  then have "take (unat (Level g)) (gameSequence g') = take (unat (Level g)) (gameSequence g1)"
    by (simp add: m)
  also have "\<dots> = take (unat (Level g)) (gameSequence g)"
    by (simp add: g1_def)
  finally show ?case
    using e g' le by auto
qed

lemma extend_zero:
  assumes "gameSequence g = replicate 100 0" and "Level g < 100"
  shows "extend 0 g = Inr (g\<lparr>Level := (if Level g = 99 then 99 else Level g + 1)\<rparr>)"
proof -
  have w: "wellFormed g" using assms by (simp add: wellFormed_def MAX_GAME_LENGTH_def)
  have "unat (Level g) < 100" using assms(2) by (simp add: word_less_nat_alt)
  then have "(replicate 100 (0 :: byte))[unat (Level g) := 0] = replicate 100 0"
    by (simp add: list_update_same_conv)
  then show ?thesis
    by (simp add: extend_wellFormed [OF w] randomIn_def assms(1))
qed


lemma nextLevel_less: "l < 100 \<Longrightarrow> nextLevel l < 100"
  using byte_succ_less [of l] by (auto simp: nextLevel_def not_le [symmetric])

lemma extends_zeros:
  "gameSequence g = replicate 100 0 \<Longrightarrow> Level g < 100 \<Longrightarrow>
     extends (replicate n 0) g = Inr (g\<lparr>Level := (nextLevel ^^ n) (Level g)\<rparr>)"
proof (induction n arbitrary: g)
  case 0
  then show ?case by simp
next
  case (Suc n)
  from Suc.prems have e: "extend 0 g = Inr (g\<lparr>Level := nextLevel (Level g)\<rparr>)"
    by (simp add: extend_zero nextLevel_def)
  have "extends (replicate n 0) (g\<lparr>Level := nextLevel (Level g)\<rparr>)
          = Inr (g\<lparr>Level := nextLevel (Level g)\<rparr>\<lparr>Level := (nextLevel ^^ n) (nextLevel (Level g))\<rparr>)"
    using Suc.IH [of "g\<lparr>Level := nextLevel (Level g)\<rparr>"] Suc.prems nextLevel_less [of "Level g"]
    by simp
  with e show ?case by (simp add: funpow_swap1)
qed

lemma nextLevel_unat:
  assumes "l < 100"
  shows "unat (nextLevel l) = min 99 (unat l + 1)"
proof -
  have u: "unat l < 100" using assms by (simp add: word_less_nat_alt)
  then have "unat (l + 1) = unat l + 1" by (simp add: unat_word_ariths)
  moreover have "l = 99 \<longleftrightarrow> unat l = 99" by (simp add: word_unat_eq_iff)
  ultimately show ?thesis using u by (simp add: nextLevel_def)
qed

lemma nextLevel_funpow:
  "l < 100 \<Longrightarrow> (nextLevel ^^ n) l < 100 \<and> unat ((nextLevel ^^ n) l) = min 99 (unat l + n)"
proof (induction n)
  case 0
  then show ?case by (simp add: word_less_nat_alt)
next
  case (Suc n)
  then show ?case
    using nextLevel_less [of "(nextLevel ^^ n) l"] nextLevel_unat [of "(nextLevel ^^ n) l"]
    by simp
qed

lemma nextLevel_100: "(nextLevel ^^ 100) 0 = 99"
proof -
  have "unat ((nextLevel ^^ 100) 0) = 99"
    using nextLevel_funpow [of 0 100] by simp
  then show ?thesis by (simp add: word_unat_eq_iff)
qed

lemma cueEvents_eq:
  "c < 4 \<Longrightarrow> cueEvents g c =
     (if currentMode g = STEALTH then
        (if isMuted g then [Delay 300]
         else [Tone speaker (gameTones ! unat c) 0, Delay 300, NoTone speaker])
      else
        (if isMuted g
         then [DigitalWrite (ledPins ! unat c) True, Delay 300,
               DigitalWrite (ledPins ! unat c) False]
         else [DigitalWrite (ledPins ! unat c) True, Tone speaker (gameTones ! unat c) 0,
               Delay 300, DigitalWrite (ledPins ! unat c) False, NoTone speaker]))"
  using playStep_stealth_unmuted [of "g\<lparr>out := []\<rparr>" c]
    playStep_stealth_muted [of "g\<lparr>out := []\<rparr>" c]
    lightLedAndPlayTone_unmuted [of "g\<lparr>out := []\<rparr>" c]
    lightLedAndPlayTone_muted [of "g\<lparr>out := []\<rparr>" c]
  by (simp add: cueEvents_def) (simp add: playStep_def)

lemma playStep_cueEvents:
  "c < 4 \<Longrightarrow> playStep c g = Inr (g\<lparr>clock := clock g + 300, out := out g @ cueEvents g c\<rparr>)"
  using playStep_stealth_unmuted [of g c] playStep_stealth_muted [of g c]
    lightLedAndPlayTone_unmuted [of g c] lightLedAndPlayTone_muted [of g c]
  by (simp add: cueEvents_eq) (simp add: playStep_def)

lemma cueEvents_cong:
  "currentMode g' = currentMode g \<Longrightarrow> isMuted g' = isMuted g \<Longrightarrow> c < 4 \<Longrightarrow>
     cueEvents g' c = cueEvents g c"
  by (simp add: cueEvents_eq)

lemma playLoop_out:
  assumes "unat (Level g) \<le> length (gameSequence g)"
    and "\<forall>j < unat (Level g). gameSequence g ! j < 4"
    and "unat (Level g) - i = n" and "i \<le> unat (Level g)"
  shows "\<exists>g'. playLoop sp i g = Inr g' \<and> sameGlobals g g' \<and>
           out g' = out g @ concat (map (\<lambda>j. cueEvents g (gameSequence g ! j) @ [Delay (nat sp)])
                                     [i..<unat (Level g)])"
  using assms
proof (induction n arbitrary: i g)
  case 0
  then show ?case by (simp add: playLoop.simps [of sp i g])
next
  case (Suc n)
  define c where "c = gameSequence g ! i"
  from Suc.prems have i: "i < unat (Level g)" and c4: "c < 4" and il: "i < length (gameSequence g)"
    by (simp_all add: c_def)
  define g1 where
    "g1 = delay (nat sp) (g\<lparr>clock := clock g + 300, out := out g @ cueEvents g c\<rparr>)"
  have same: "sameGlobals g g1" by (simp add: g1_def sameGlobals_def delay_def)
  have step: "playLoop sp i g = playLoop sp (i + 1) g1"
    using i il c4 by (simp add: playLoop.simps [of sp i g] at_nat c_def [symmetric]
        playStep_cueEvents g1_def)
  have "\<exists>g'. playLoop sp (i + 1) g1 = Inr g' \<and> sameGlobals g1 g' \<and>
           out g' = out g1 @ concat (map (\<lambda>j. cueEvents g1 (gameSequence g1 ! j) @ [Delay (nat sp)])
                                     [i + 1..<unat (Level g1)])"
    using Suc.prems same by (intro Suc.IH) (simp_all add: sameGlobals_def)
  then obtain g' where g': "playLoop sp (i + 1) g1 = Inr g'" "sameGlobals g1 g'"
    "out g' = out g1 @ concat (map (\<lambda>j. cueEvents g1 (gameSequence g1 ! j) @ [Delay (nat sp)])
                                     [i + 1..<unat (Level g1)])"
    by blast
  have cong: "map (\<lambda>j. cueEvents g1 (gameSequence g1 ! j) @ [Delay (nat sp)]) [i + 1..<unat (Level g1)]
      = map (\<lambda>j. cueEvents g (gameSequence g ! j) @ [Delay (nat sp)]) [i + 1..<unat (Level g)]"
    using same Suc.prems(2) by (auto simp: sameGlobals_def intro!: cueEvents_cong)
  have o1: "out g1 = out g @ cueEvents g c @ [Delay (nat sp)]"
    by (simp add: g1_def delay_def)
  have "out g' = out g @ concat (map (\<lambda>j. cueEvents g (gameSequence g ! j) @ [Delay (nat sp)])
                                     [i..<unat (Level g)])"
    using i unfolding g'(3) cong o1 by (simp add: upt_conv_Cons c_def)
  with g' same step show ?case
    by (auto intro: sameGlobals_trans)
qed

lemma map_nth_take: "n \<le> length xs \<Longrightarrow> map (\<lambda>j. f (xs ! j)) [0..<n] = map f (take n xs)"
  by (simp add: list_eq_iff_nth_eq)

lemma awaitRelease_held: "awaitRelease (replicate n True) = Inl Blocked"
  by (induction n) simp_all

lemma awaitRelease_released: "awaitRelease (replicate n True @ False # rest) = Inr rest"
  by (induction n) simp_all

lemma debouncedFrom_opens:
  "i + k \<le> 4 \<Longrightarrow> debouncedFrom i g (replicate k False @ pins) = debouncedFrom (i + k) g pins"
proof (induction k arbitrary: i)
  case 0
  then show ?case by simp
next
  case (Suc k)
  then have "i < 4" by simp
  with Suc.IH [of "i + 1"] Suc.prems show ?case
    by (simp add: debouncedFrom_open)
qed

lemma debouncedFrom_unconfirmed:
  "\<not> confirmable pins \<Longrightarrow> debouncedFrom i g pins = Inl Blocked"
proof (induction i g pins rule: debouncedFrom.induct)
  case (1 i g pins)
  show ?case
  proof (cases "i < 4")
    case False
    with "1.IH"(3) "1.prems" show ?thesis by (simp add: debouncedFrom_wrap)
  next
    case i: True
    show ?thesis
    proof (cases pins rule: pins_cases)
      case Empty
      with i show ?thesis by (simp add: debouncedFrom_unfold)
    next
      case (Open ps)
      with "1.prems" have "\<not> confirmable ps" by simp
      from "1.IH"(2) [OF i Open _ this] Open i show ?thesis by (simp add: debouncedFrom_unfold)
    next
      case Closed1
      with i show ?thesis by (simp add: debouncedFrom_unfold)
    next
      case (Bounce qs)
      with "1.prems" have "\<not> confirmable qs" by simp
      from "1.IH"(1) [OF i Bounce _ refl _ this] Bounce i show ?thesis
        by (simp add: debouncedFrom_unfold)
    next
      case (Press qs)
      with "1.prems" show ?thesis by simp
    qed
  qed
qed
























lemma clock_showTimeLeft [simp]: "clock (showTimeLeft r g) = clock g"
  by (simp add: showTimeLeft_def emit_def)









lemma sameGlobals_right: "sameGlobals h h' \<Longrightarrow> sameGlobals g h' = sameGlobals g h"
  by (auto simp: sameGlobals_def)

lemma soundAndLight_playMistakeSound: "soundAndLight g (playMistakeSound g)"
  unfolding playMistakeSound_def Let_def
  by (intro soundAndLight_delay soundAndLight_unlessMuted soundAndLight_noTone
      soundAndLight_tone soundAndLight_refl)

lemma soundAndLight_flashAllLEDsSync: "soundAndLight g h \<Longrightarrow> soundAndLight g (flashAllLEDsSync t d h)"
  by (induction t arbitrary: h) (simp_all add: soundAndLight_delay soundAndLight_allLeds)

lemma soundAndLight_celebrateCorrectSequence: "soundAndLight g (celebrateCorrectSequence g)"
  unfolding celebrateCorrectSequence_def Let_def
  by (intro soundAndLight_fold soundAndLight_delay soundAndLight_unlessMuted
      soundAndLight_noTone soundAndLight_tone soundAndLight_digitalWrite soundAndLight_refl)

lemma sameGlobals_jingles [simp]:
  "sameGlobals g (playMistakeSound h) = sameGlobals g h"
  "sameGlobals g (flashAllLEDsSync t d h) = sameGlobals g h"
  "sameGlobals g (celebrateCorrectSequence h) = sameGlobals g h"
  "sameGlobals g (allLeds v h) = sameGlobals g h"
  using soundAndLight_playMistakeSound [of h]
    soundAndLight_allLeds [OF soundAndLight_refl, of h v]
    soundAndLight_flashAllLEDsSync [OF soundAndLight_refl, of h t d]
    soundAndLight_celebrateCorrectSequence [of h]
  by (simp_all add: soundAndLight_def sameGlobals_right)






section \<open>The claims\<close>

text \<open>
  C1. At a level within the array and a step \<open>i\<close> below the level, the colour that
  \<^verbatim>\<open>checkUserSequence\<close> expects is \<open>gameSequence[Level - 1 - i]\<close> in Reverse mode and
  \<open>gameSequence[i]\<close> in every other mode, and this is the value the press read at step
  \<open>i\<close> is compared with.
\<close>

theorem expected_colour:
  assumes "unat (Level g) \<le> length (gameSequence g)" and "i < unat (Level g)"
  shows "expected g i = Inr (if currentMode g = REVERSE
           then gameSequence g ! (unat (Level g) - 1 - i) else gameSequence g ! i) \<and>
         checkLoop i g pins =
           (case readStep g pins of
              Inl e \<Rightarrow> Inl e
            | Inr (actual, g1, pins1) \<Rightarrow>
                if actual = 255 \<or>
                   (if currentMode g = REVERSE then gameSequence g ! (unat (Level g) - 1 - i)
                    else gameSequence g ! i) \<noteq> actual
                then Inr (False, g1\<lparr>lives := lives g1 - 1\<rparr>, pins1)
                else (case echo actual g1 of
                        Inl e \<Rightarrow> Inl e
                      | Inr g2 \<Rightarrow> checkLoop (i + 1) g2 pins1))"
  using assms expected_in_range [OF assms]
  by (simp add: checkLoop.simps [of i g pins] split: sum.splits prod.splits)

theorem expected_colour_witness:
  "expected (twoSteps REVERSE) 0 = Inr 1 \<and> expected (twoSteps REVERSE) 1 = Inr 3 \<and>
   expected (twoSteps CLASSIC) 0 = Inr 3 \<and> expected (twoSteps STEALTH) 1 = Inr 1"
  using expected_colour [of "twoSteps REVERSE" 0] expected_colour [of "twoSteps REVERSE" 1]
    expected_colour [of "twoSteps CLASSIC" 0] expected_colour [of "twoSteps STEALTH" 1]
  by (simp add: twoSteps_def initial_def)

text \<open>
  C4 (as amended). For a candidate score \<open>s\<close> and a stored byte \<open>h\<close>,
  \<^verbatim>\<open>updateHighScore\<close> writes \<open>s\<close> to the EEPROM exactly when \<open>h = 255\<close> or \<open>s > h\<close>,
  and otherwise changes nothing. With a real score stored and a real candidate (neither is
  255) the stored score stays real and does not decrease, and so it does over every series
  of calls with real candidates. The candidate 255 is written over every real score and
  leaves the cell reading as unset.
\<close>

theorem updateHighScore_writes_iff:
  "(stored g = 255 \<or> s > stored g \<longrightarrow>
      updateHighScore s g = eepromWrite highScoreAddress s g \<and> stored (updateHighScore s g) = s) \<and>
   (\<not> (stored g = 255 \<or> s > stored g) \<longrightarrow> updateHighScore s g = g) \<and>
   (out (updateHighScore s g) = out g @ [EepromWrite highScoreAddress s]
      \<longleftrightarrow> stored g = 255 \<or> s > stored g) \<and>
   (stored g \<noteq> 255 \<and> s \<noteq> 255 \<longrightarrow>
      stored g \<le> stored (updateHighScore s g) \<and> stored (updateHighScore s g) \<noteq> 255) \<and>
   (stored g \<noteq> 255 \<and> (\<forall>c \<in> set ss. c \<noteq> 255) \<longrightarrow>
      stored g \<le> stored (updates ss g) \<and> stored (updates ss g) \<noteq> 255) \<and>
   stored (updateHighScore 255 g) = 255"
proof -
  have w: "out (updateHighScore s g) = out g @ [EepromWrite highScoreAddress s]
      \<longleftrightarrow> stored g = 255 \<or> s > stored g"
    by (cases "stored g = 255 \<or> s > stored g")
      (simp_all add: updateHighScore_cases eepromWrite_def)
  have m: "stored g \<noteq> 255 \<and> s \<noteq> 255 \<longrightarrow>
      stored g \<le> stored (updateHighScore s g) \<and> stored (updateHighScore s g) \<noteq> 255"
    by (auto simp: stored_update)
  have "stored g < 255" if "stored g \<noteq> 255"
  proof -
    have "unat (stored g) < 256" using unsigned_less [of "stored g", where 'a = nat] by simp
    moreover have "unat (stored g) \<noteq> 255" using that by (simp add: word_unat_eq_iff)
    ultimately show ?thesis by (simp add: word_less_nat_alt)
  qed
  then have t: "stored (updateHighScore 255 g) = 255"
    by (auto simp: stored_update)
  show ?thesis
    using updates_monotone [of g ss] w m t
    by (simp add: stored_update) (simp add: updateHighScore_cases)
qed

theorem updateHighScore_writes_iff_witness:
  "updateHighScore 12 (initial False CLASSIC scoreTen)
     = eepromWrite highScoreAddress 12 (initial False CLASSIC scoreTen) \<and>
   updateHighScore 7 (initial False CLASSIC scoreTen) = initial False CLASSIC scoreTen \<and>
   updateHighScore 7 (initial False CLASSIC erased)
     = eepromWrite highScoreAddress 7 (initial False CLASSIC erased) \<and>
   stored (updates [3, 12, 7] (initial False CLASSIC scoreTen)) = 12"
  using updateHighScore_writes_iff [where g = "initial False CLASSIC scoreTen" and s = 12
      and ss = "[3, 12, 7]"]
    updateHighScore_writes_iff [where g = "initial False CLASSIC scoreTen" and s = 7
      and ss = "[]"]
    updateHighScore_writes_iff [where g = "initial False CLASSIC erased" and s = 7
      and ss = "[]"]
  by (simp add: stored_def initial_def scoreTen_def erased_def highScoreAddress_def
      updateHighScore_def eepromWrite_def)

text \<open>
  C4 as stated fails: with 10 stored, the candidate 255 is written (it is greater than 10),
  and the next candidate 0 is then written over it; the stored score has gone from 10 to 0.
\<close>

theorem sentinel_candidate_resets:
  "stored (initial False CLASSIC scoreTen) = 10 \<and>
   stored (updates [255] (initial False CLASSIC scoreTen)) = 255 \<and>
   stored (updates [255, 0] (initial False CLASSIC scoreTen)) = 0"
  by (simp add: stored_def initial_def scoreTen_def highScoreAddress_def updateHighScore_def
      eepromWrite_def)

text \<open>
  C9 (as amended). One cue lasts 300 ms in every mode. In Stealth mode it is the tone alone
  when unmuted and the bare wait when muted, and \<^verbatim>\<open>playToneOnly\<close> does the same. In every
  other mode the LED is lit for the 300 ms, together with the tone when unmuted and alone
  when muted.
\<close>

theorem playStep_cue:
  "(currentMode g = STEALTH \<and> \<not> isMuted g \<and> c < 4 \<longrightarrow>
      playStep c g = Inr (g\<lparr>clock := clock g + 300,
        out := out g @ [Tone speaker (gameTones ! unat c) 0, Delay 300, NoTone speaker]\<rparr>) \<and>
      playToneOnly c g = playStep c g) \<and>
   (currentMode g = STEALTH \<and> isMuted g \<longrightarrow>
      playStep c g = Inr (g\<lparr>clock := clock g + 300, out := out g @ [Delay 300]\<rparr>) \<and>
      playToneOnly c g = playStep c g) \<and>
   (currentMode g \<noteq> STEALTH \<and> \<not> isMuted g \<and> c < 4 \<longrightarrow>
      playStep c g = Inr (g\<lparr>clock := clock g + 300,
        out := out g @ [DigitalWrite (ledPins ! unat c) True, Tone speaker (gameTones ! unat c) 0,
                        Delay 300, DigitalWrite (ledPins ! unat c) False, NoTone speaker]\<rparr>)) \<and>
   (currentMode g \<noteq> STEALTH \<and> isMuted g \<and> c < 4 \<longrightarrow>
      playStep c g = Inr (g\<lparr>clock := clock g + 300,
        out := out g @ [DigitalWrite (ledPins ! unat c) True, Delay 300,
                        DigitalWrite (ledPins ! unat c) False]\<rparr>))"
  using playStep_stealth_unmuted [of g c] playStep_stealth_muted [of g c]
    lightLedAndPlayTone_unmuted [of g c] lightLedAndPlayTone_muted [of g c]
    playToneOnly_unmuted [of g c] playToneOnly_muted [of g c]
  by (simp add: playStep_def)

theorem playStep_cue_witness:
  "playStep 2 (initial False STEALTH erased) = Inr ((initial False STEALTH erased)
     \<lparr>clock := 300, out := [Tone 10 NOTE_E4 0, Delay 300, NoTone 10]\<rparr>) \<and>
   playStep 2 (initial True STEALTH erased) = Inr ((initial True STEALTH erased)
     \<lparr>clock := 300, out := [Delay 300]\<rparr>) \<and>
   playStep 2 (initial False REVERSE erased) = Inr ((initial False REVERSE erased)
     \<lparr>clock := 300, out := [DigitalWrite 6 True, Tone 10 NOTE_E4 0, Delay 300,
                            DigitalWrite 6 False, NoTone 10]\<rparr>) \<and>
   playStep 2 (initial True SPEED erased) = Inr ((initial True SPEED erased)
     \<lparr>clock := 300, out := [DigitalWrite 6 True, Delay 300, DigitalWrite 6 False]\<rparr>)"
  using playStep_cue [of "initial False STEALTH erased" 2]
    playStep_cue [of "initial True STEALTH erased" 2]
    playStep_cue [of "initial False REVERSE erased" 2]
    playStep_cue [of "initial True SPEED erased" 2]
  by (simp add: initial_def gameTones_def ledPins_def speaker_def)

text \<open>
  C9 as stated fails: in Classic mode with the sound muted the cue is the light alone, no
  tone is emitted.
\<close>

theorem muted_cue_has_no_tone:
  "playStep 0 (initial True CLASSIC erased) = Inr ((initial True CLASSIC erased)
     \<lparr>clock := 300, out := [DigitalWrite 4 True, Delay 300, DigitalWrite 4 False]\<rparr>)"
  by (simp add: playStep_def lightLedAndPlayTone_def toneOf_def unlessMuted_def at_def
      ledPins_def digitalWrite_def delay_def emit_def initial_def)

text \<open>
  C3 (as amended). In a state between two rounds, growing the sequence writes the drawn
  colour into slot \<open>Level\<close> and raises the level by one, except that a level of 99 stays
  99. The array keeps its 100 slots, the level stays below 100, and no series of later
  calls changes a slot below the level: the played sequence is only ever appended to. At
  level 99 the call still overwrites slot 99, which is never played.
\<close>

theorem extend_clamps:
  "wellFormed g \<Longrightarrow>
     extend raw g =
       Inr (g\<lparr>gameSequence := (gameSequence g)[unat (Level g) := word_of_int (randomIn raw 0 4)],
              Level := (if Level g = 99 then 99 else Level g + 1)\<rparr>) \<and>
     (\<exists>g'. extends raws g = Inr g' \<and> wellFormed g' \<and> Level g \<le> Level g' \<and>
        take (unat (Level g)) (gameSequence g') = take (unat (Level g)) (gameSequence g))"
  using extend_wellFormed [of g raw] extends_wellFormed [of g raws] by simp

theorem extend_clamps_witness:
  "wellFormed (twoSteps CLASSIC) \<and>
   extend 6 (twoSteps CLASSIC) =
     Inr ((twoSteps CLASSIC)\<lparr>gameSequence := (gameSequence (twoSteps CLASSIC))[2 := 2],
                             Level := 3\<rparr>)"
proof -
  have w: "wellFormed (twoSteps CLASSIC)"
    by (simp add: wellFormed_def twoSteps_def initial_def MAX_GAME_LENGTH_def)
  from extend_clamps [OF w, of 6 "[]"] w show ?thesis
    by (simp add: randomIn_def) (simp add: twoSteps_def)
qed

text \<open>
  C3 as stated fails: after 100 rounds that drew colour 0 the level is clamped at 99 and
  slot 99 holds 0; the next call, drawing 1, is not a no-op but overwrites slot 99.
\<close>

theorem extend_at_cap_overwrites:
  "extends (replicate 100 0) (initial False CLASSIC erased) = Inr capped \<and>
   Level capped = 99 \<and> gameSequence capped ! 99 = 0 \<and>
   extend 1 capped = Inr (capped\<lparr>gameSequence := (gameSequence capped)[99 := 1]\<rparr>) \<and>
   (gameSequence capped)[99 := 1] ! 99 = 1"
proof -
  have s: "gameSequence (initial False CLASSIC erased) = replicate 100 0"
    and l: "Level (initial False CLASSIC erased) = 0"
    by (simp_all add: initial_def MAX_GAME_LENGTH_def)
  have "extends (replicate 100 0) (initial False CLASSIC erased)
          = Inr ((initial False CLASSIC erased)\<lparr>Level := (nextLevel ^^ 100) 0\<rparr>)"
    using extends_zeros [OF s, of 100] unfolding l by simp
  then have "extends (replicate 100 0) (initial False CLASSIC erased) = Inr capped"
    unfolding nextLevel_100 capped_def .
  moreover have "wellFormed capped"
    by (simp add: wellFormed_def capped_def initial_def MAX_GAME_LENGTH_def)
  from extend_wellFormed [OF this, of 1]
  have "extend 1 capped = Inr (capped\<lparr>gameSequence := (gameSequence capped)[99 := 1]\<rparr>)"
    by (simp add: randomIn_def) (simp add: capped_def)
  ultimately show ?thesis
    by (simp add: capped_def initial_def MAX_GAME_LENGTH_def)
qed

text \<open>
  C5. In a state between two rounds at level \<open>L\<close>, \<^verbatim>\<open>playSequence\<close> returns, changes
  no global, and emits, for each of the first \<open>L\<close> elements of the sequence in forward
  order, the cue of that element followed by a pause of \<open>max(100, 400 - L * 10)\<close>
  milliseconds: \<open>L\<close> cues and \<open>L\<close> pauses.
\<close>

theorem playSequence_cues:
  assumes "wellFormed g"
  shows "\<exists>g'. playSequence g = Inr g' \<and> sameGlobals g g' \<and>
           length (take (unat (Level g)) (gameSequence g)) = unat (Level g) \<and>
           out g' = out g @ concat (map
             (\<lambda>c. cueEvents g c @ [Delay (nat (max 100 (400 - uint (Level g) * 10)))])
             (take (unat (Level g)) (gameSequence g)))"
proof -
  from assms have len: "length (gameSequence g) = 100" and l: "unat (Level g) < 100"
    and cs: "\<forall>c \<in> set (gameSequence g). c < 4"
    by (simp_all add: wellFormed_def MAX_GAME_LENGTH_def word_less_nat_alt)
  have b: "\<forall>j < unat (Level g). gameSequence g ! j < 4"
    using cs len l by simp
  have m: "map (\<lambda>j. cueEvents g (gameSequence g ! j) @ [Delay (nat (speed g))]) [0..<unat (Level g)]
      = map (\<lambda>c. cueEvents g c @ [Delay (nat (speed g))]) (take (unat (Level g)) (gameSequence g))"
    using len l by (intro map_nth_take) simp
  from playLoop_out [of g 0 "unat (Level g)" "speed g"] b len l
  show ?thesis
    unfolding m playSequence_def by (simp add: speed_def)
qed

theorem playSequence_cues_witness:
  "wellFormed (twoSteps CLASSIC) \<and>
   map_sum id out (playSequence (twoSteps CLASSIC)) =
     Inr [DigitalWrite 7 True, Tone 10 NOTE_G5 0, Delay 300, DigitalWrite 7 False, NoTone 10,
          Delay 380,
          DigitalWrite 5 True, Tone 10 NOTE_C4 0, Delay 300, DigitalWrite 5 False, NoTone 10,
          Delay 380]"
proof -
  have w: "wellFormed (twoSteps CLASSIC)"
    by (simp add: wellFormed_def twoSteps_def initial_def MAX_GAME_LENGTH_def)
  from playSequence_cues [OF w] w show ?thesis
    by (auto simp: cueEvents_eq twoSteps_def initial_def gameTones_def ledPins_def
        speaker_def)
qed





text \<open>
  C7. While \<^verbatim>\<open>readButtonsDebounced\<close> is at button \<open>i\<close>: a reading closed at the poll
  and open at the re-poll 20 ms later registers nothing, the reader goes on as after an
  open reading; a reading closed at the poll and at the re-poll makes the reader wait
  through every further closed reading and return \<open>i\<close> at the first open one, once, with
  the script after the release left unread; while the contact stays closed nothing is
  returned, so nothing registers again before the release. A script without two closed
  readings in a row never registers a press.
\<close>

theorem debounce:
  "i < 4 \<Longrightarrow>
     debouncedFrom i g (True # False # rest) = debouncedFrom i (delay 20 g) (False # rest) \<and>
     debouncedFrom i g (True # True # replicate n True @ False # rest)
       = Inr (of_nat i, delay 20 g, rest) \<and>
     debouncedFrom i g (True # True # replicate n True) = Inl Blocked \<and>
     readButtonsDebounced g (replicate i False @ True # True # replicate n True @ False # rest)
       = Inr (of_nat i, delay 20 g, rest) \<and>
     readButtonsDebounced g (replicate i False @ True # False # rest)
       = readButtonsDebounced (delay 20 g) (replicate i False @ False # rest) \<and>
     (\<not> confirmable pins \<longrightarrow> debouncedFrom i g pins = Inl Blocked)"
  using debouncedFrom_opens [of 0 i g] debouncedFrom_opens [of 0 i "delay 20 g"]
    debouncedFrom_unconfirmed [of pins i g]
  by (simp add: debouncedFrom_bounce debouncedFrom_open debouncedFrom_press
      awaitRelease_held awaitRelease_released readButtonsDebounced_def)

theorem debounce_witness:
  "readButtonsDebounced (twoSteps CLASSIC) [False, False, True, True, True, True, False, True]
     = Inr (2, delay 20 (twoSteps CLASSIC), [True]) \<and>
   debouncedFrom 2 (twoSteps CLASSIC) [True, True, True, True] = Inl Blocked \<and>
   debouncedFrom 2 (twoSteps CLASSIC) [True, False, True, True, False]
     = debouncedFrom 2 (delay 20 (twoSteps CLASSIC)) [False, True, True, False] \<and>
   readButtonsDebounced (twoSteps CLASSIC) [False, True, False, True, False, False, True]
     = Inl Blocked"
  using debounce [where i = 2 and g = "twoSteps CLASSIC" and n = 2 and rest = "[True]"
      and pins = "[]"]
    debounce [where i = 2 and g = "twoSteps CLASSIC" and n = 0 and rest = "[True, True, False]"
      and pins = "[]"]
    debounce [where i = 0 and g = "twoSteps CLASSIC" and n = 0 and rest = "[]"
      and pins = "[False, True, False, True, False, False, True]"]
  by (simp add: numeral_2_eq_2 readButtonsDebounced_def)







text \<open>
  C8. With no lives left, \<^verbatim>\<open>loop\<close> runs the game-over handler and never returns, whatever
  the buttons do and however often the main loop would have run again. The handler shows
  the score \<open>Level - 1\<close>, plays its jingle (sound, light and waiting only), passes
  \<open>Level - 1\<close> to \<^verbatim>\<open>updateHighScore\<close>, and after that shows the high score read back
  from the EEPROM.
\<close>

theorem game_over_halts:
  "lives g = 0 \<Longrightarrow>
     loop raw g pins = Inl (Halted (showGameOver g)) \<and>
     mainLoop (raw # raws) g pins = Inl (Halted (showGameOver g)) \<and>
     eeprom (showGameOver g) = eeprom (updateHighScore (Level g - 1) g) \<and>
     (\<exists>jingle. (\<forall>e \<in> set jingle. cueEvent e) \<and>
        out (showGameOver g) =
          out g @ [LcdClear, LcdSetCursor 3 0, LcdPrint ''Game Over!'', LcdSetCursor 2 1,
                   LcdPrint ''Score: '', LcdPrintNum (uint (Level g) - 1), Delay 2000]
            @ jingle
            @ (if stored g = 255 \<or> Level g - 1 > stored g
               then [EepromWrite highScoreAddress (Level g - 1)] else [])
            @ [LcdClear, LcdSetCursor 1 0, LcdPrint ''High Score: '',
               LcdPrintNum (uint (stored (showGameOver g))), Delay 4000, LcdClear])"
  using showGameOver_out [of g] showGameOver_stored [of g]
  by (simp add: loop_def)


theorem game_over_halts_witness:
  "lives (lost 3 erased) = 0 \<and>
   mainLoop [7, 5] (lost 3 erased) [True, True, False] = Inl (Halted (showGameOver (lost 3 erased))) \<and>
   stored (showGameOver (lost 3 erased)) = 2 \<and>
   stored (showGameOver (lost 3 scoreTen)) = 10"
  using game_over_halts [of "lost 3 erased" 7 "[True, True, False]" "[5]"]
    game_over_halts [of "lost 3 scoreTen" 7 "[]" "[]"]
  by (simp add: lost_def initial_def stored_def updateHighScore_def eepromWrite_def
      erased_def scoreTen_def highScoreAddress_def)


end
